theory Spec2Isabelle
  imports Main "HOL-Library.Word"
begin

unbundle bit_operations_syntax

section \<open>Bytes, text and numbers\<close>

type_synonym byte = "8 word"

text \<open>A Go string literal as the bytes it holds (ASCII only in this development).\<close>

definition bytes_of :: "string \<Rightarrow> byte list" where
  "bytes_of s = map (\<lambda>c. of_nat (of_char c)) s"

text \<open>The verb \<^verbatim>\<open>%d\<close> of the message formatter: a decimal numeral.\<close>

definition digit_char :: "nat \<Rightarrow> char" where
  "digit_char d = ''0123456789'' ! d"

fun show_nat :: "nat \<Rightarrow> string" where
  "show_nat n = (if n < 10 then [digit_char n] else show_nat (n div 10) @ [digit_char (n mod 10)])"

declare show_nat.simps [simp del]

definition show_int :: "int \<Rightarrow> string" where
  "show_int i = (if i < 0 then CHR ''-'' # show_nat (nat (- i)) else show_nat (nat i))"

section \<open>The error values\<close>

text \<open>
  Modelled from the spec: the package \<^verbatim>\<open>go-server/pkg/errors\<close> is not among the
  sources. Its use in \<^verbatim>\<open>Compress\<close> and \<^verbatim>\<open>Decompress\<close> shows an error
  classification, a human-readable message and, for \<^verbatim>\<open>Wrapf\<close>, the wrapped cause.
\<close>

datatype error_code = InvalidParams | InternalServerError

text \<open>The errors that the standard library hands to the codec.\<close>

datatype lib_error =
    EOF
  | ErrUnexpectedEOF
  | ErrHeader
  | ErrChecksum
  | CorruptInput
  | SyntaxError
  | UnsupportedType
  | UnmarshalType

record app_error =
  code :: error_code
  message :: string
  cause :: "lib_error option"

definition errors_New :: "error_code \<Rightarrow> string \<Rightarrow> app_error" where
  "errors_New c m = \<lparr>code = c, message = m, cause = None\<rparr>"

definition errors_Errorf :: "error_code \<Rightarrow> string \<Rightarrow> app_error" where
  "errors_Errorf c m = \<lparr>code = c, message = m, cause = None\<rparr>"

definition errors_Wrapf :: "lib_error \<Rightarrow> error_code \<Rightarrow> string \<Rightarrow> app_error" where
  "errors_Wrapf e c m = \<lparr>code = c, message = m, cause = Some e\<rparr>"

section \<open>The standard library, as far as the codec uses it\<close>

text \<open>
  \<^verbatim>\<open>encoding/json\<close> and \<^verbatim>\<open>compress/flate\<close> are taken as parameters. The JSON
  scanner is a state machine over the buffered bytes: \<open>scan\<close> tells, for the bytes
  buffered so far, whether a complete value ends after \<open>n\<close> of them, whether they are
  malformed, or whether more input is needed; \<open>scan_eof\<close> tells whether the value is
  complete once the input has ended (a number at the very end of the input).
  \<open>Unmarshal\<close> stores into the destination and may leave it partly stored on error.
\<close>

datatype scan_result = ScanEnd nat | ScanError | ScanMore

record 'v json_lib =
  Marshal :: "'v \<Rightarrow> lib_error + byte list"
  TypeName :: "'v \<Rightarrow> string"
  scan :: "byte list \<Rightarrow> scan_result"
  scan_eof :: "byte list \<Rightarrow> bool"
  Unmarshal :: "byte list \<Rightarrow> 'v \<Rightarrow> lib_error option \<times> 'v"

text \<open>
  \<open>inflate\<close> returns the bytes it produced and either the error that stopped it or
  the number of input bytes the deflate stream occupied. A \<^verbatim>\<open>Read\<close> hands out at
  most \<open>Suc read_cap\<close> bytes, and \<open>read_eager\<close> says whether the final status comes
  with the last bytes or with the read after them; the reader contract allows both.
\<close>

record flate_lib =
  deflate :: "byte list \<Rightarrow> byte list"
  inflate :: "byte list \<Rightarrow> byte list \<times> (lib_error + nat)"
  read_cap :: nat
  read_eager :: bool

subsection \<open>CRC-32 (IEEE) and little-endian fields\<close>

definition crc_bit :: "32 word \<Rightarrow> 32 word" where
  "crc_bit c = (if bit c 0 then drop_bit 1 c XOR 0xEDB88320 else drop_bit 1 c)"

definition crc_byte :: "32 word \<Rightarrow> byte \<Rightarrow> 32 word" where
  "crc_byte c b =
     crc_bit (crc_bit (crc_bit (crc_bit (crc_bit (crc_bit (crc_bit (crc_bit (c XOR ucast b))))))))"

definition crc32 :: "byte list \<Rightarrow> 32 word" where
  "crc32 bs = NOT (foldl crc_byte (- 1) bs)"

definition le_bytes32 :: "32 word \<Rightarrow> byte list" where
  "le_bytes32 w = [ucast w, ucast (drop_bit 8 w), ucast (drop_bit 16 w), ucast (drop_bit 24 w)]"

definition le_uint32 :: "byte list \<Rightarrow> 32 word" where
  "le_uint32 bs =
     ucast (bs ! 0) OR push_bit 8 (ucast (bs ! 1)) OR push_bit 16 (ucast (bs ! 2))
       OR push_bit 24 (ucast (bs ! 3))"

definition le_uint16 :: "byte list \<Rightarrow> 16 word" where
  "le_uint16 bs = ucast (bs ! 0) OR push_bit 8 (ucast (bs ! 1))"

subsection \<open>The gzip writer\<close>

text \<open>
  A writer made by \<^verbatim>\<open>gzip.NewWriter\<close> with an empty header: magic, method deflate,
  no flags, no modification time, no extra flags, operating system unknown.
\<close>

definition gzip_header :: "byte list" where
  "gzip_header = [0x1f, 0x8b, 0x08, 0, 0, 0, 0, 0, 0, 0xff]"

definition gzip_member :: "flate_lib \<Rightarrow> byte list \<Rightarrow> byte list" where
  "gzip_member F d =
     gzip_header @ deflate F d @ le_bytes32 (crc32 d) @ le_bytes32 (of_nat (length d))"

text \<open>
  \<^verbatim>\<open>Encoder.Encode\<close> marshals the value, appends a newline and writes the text to
  the gzip writer in one piece. The sink is a \<^verbatim>\<open>bytes.Buffer\<close>, whose writes
  report no error, so only marshalling can fail.
\<close>

definition json_Encode :: "'v json_lib \<Rightarrow> 'v \<Rightarrow> lib_error + byte list" where
  "json_Encode J v = (case Marshal J v of Inl e \<Rightarrow> Inl e | Inr b \<Rightarrow> Inr (b @ [0x0a]))"

definition gzip_Close :: "flate_lib \<Rightarrow> byte list \<Rightarrow> lib_error + byte list" where
  "gzip_Close F d = Inr (gzip_member F d)"

section \<open>Compress\<close>

text \<open>
  The argument is an interface value: \<open>None\<close> is the nil interface, \<open>Some v\<close> an
  interface holding \<open>v\<close> (which may itself be a nil pointer). The result is the pair
  that the Go function returns: the byte slice (\<open>None\<close> for nil) and the error.
\<close>

definition Compress ::
  "'v json_lib \<Rightarrow> flate_lib \<Rightarrow> 'v option \<Rightarrow> byte list option \<times> app_error option" where
  "Compress J F data =
     (case data of
        None \<Rightarrow> (None, Some (errors_New InvalidParams ''data cannot be nil''))
      | Some v \<Rightarrow>
          (case json_Encode J v of
             Inl err \<Rightarrow>
               (None, Some (errors_Wrapf err InternalServerError
                  (''failed to encode JSON (type:'' @ TypeName J v @ '')'')))
           | Inr text \<Rightarrow>
               (case gzip_Close F text of
                  Inl err \<Rightarrow>
                    (None, Some (errors_Wrapf err InternalServerError
                       ''failed to finalize compression''))
                | Inr bs \<Rightarrow> (Some bs, None))))"

section \<open>The gzip reader\<close>

subsection \<open>Member header\<close>

definition flagHdrCrc :: byte where
  "flagHdrCrc = 2"

definition flagExtra :: byte where
  "flagExtra = 4"

definition flagName :: byte where
  "flagName = 8"

definition flagComment :: byte where
  "flagComment = 16"

text \<open>
  A header string ends at its NUL byte; the reader's buffer holds 512 bytes, and a string
  that does not end within them is a header error.
\<close>

definition readString :: "byte list \<Rightarrow> lib_error + byte list" where
  "readString bs =
     (let pre = takeWhile (\<lambda>b. b \<noteq> 0) (take 512 bs) in
      if length pre = 512 then Inl ErrHeader
      else if length pre = length bs then Inl ErrUnexpectedEOF
      else Inr (drop (Suc (length pre)) bs))"

definition readExtra :: "byte list \<Rightarrow> lib_error + byte list" where
  "readExtra bs =
     (if length bs < 2 then Inl ErrUnexpectedEOF
      else let n = unat (le_uint16 bs) in
        if length bs < 2 + n then Inl ErrUnexpectedEOF else Inr (drop (2 + n) bs))"

text \<open>The header checksum is the low half of the CRC-32 of the header bytes before it.\<close>

definition readHdrCrc :: "byte list \<Rightarrow> byte list \<Rightarrow> lib_error + byte list" where
  "readHdrCrc whole bs =
     (if length bs < 2 then Inl ErrUnexpectedEOF
      else if le_uint16 bs \<noteq> ucast (crc32 (take (length whole - length bs) whole))
        then Inl ErrHeader
      else Inr (drop 2 bs))"

definition optional ::
  "bool \<Rightarrow> (byte list \<Rightarrow> lib_error + byte list) \<Rightarrow> byte list \<Rightarrow> lib_error + byte list" where
  "optional present field bs = (if present then field bs else Inr bs)"

text \<open>
  \<open>readHeader\<close> returns the input after the header. No input at all is \<open>EOF\<close> (the
  end of a series of members), fewer than ten bytes an unexpected end.
\<close>

definition readHeader :: "byte list \<Rightarrow> lib_error + byte list" where
  "readHeader bs =
     (if bs = [] then Inl EOF
      else if length bs < 10 then Inl ErrUnexpectedEOF
      else if bs ! 0 \<noteq> 0x1f \<or> bs ! 1 \<noteq> 0x8b \<or> bs ! 2 \<noteq> 0x08 then Inl ErrHeader
      else let flg = bs ! 3 in
        (case optional (flg AND flagExtra \<noteq> 0) readExtra (drop 10 bs) of
           Inl e \<Rightarrow> Inl e
         | Inr r1 \<Rightarrow>
        (case optional (flg AND flagName \<noteq> 0) readString r1 of
           Inl e \<Rightarrow> Inl e
         | Inr r2 \<Rightarrow>
        (case optional (flg AND flagComment \<noteq> 0) readString r2 of
           Inl e \<Rightarrow> Inl e
         | Inr r3 \<Rightarrow> optional (flg AND flagHdrCrc \<noteq> 0) (readHdrCrc bs) r3))))"

subsection \<open>Member bodies and trailers\<close>

text \<open>
  What a reader delivers in all: the bytes of every member in turn and the status that
  ends the stream. After the deflate stream come the CRC-32 and the length (modulo
  \<open>2^32\<close>) of the member's data, then the next member or the end of the input.
\<close>

function gunzip_members :: "flate_lib \<Rightarrow> byte list \<Rightarrow> byte list \<times> lib_error" where
  "gunzip_members F bs =
     (case inflate F bs of
        (d, Inl e) \<Rightarrow> (d, e)
      | (d, Inr n) \<Rightarrow>
          (let trailer = drop n bs in
           if length trailer < 8 then (d, ErrUnexpectedEOF)
           else if le_uint32 trailer \<noteq> crc32 d
                   \<or> le_uint32 (drop 4 trailer) \<noteq> of_nat (length d)
             then (d, ErrChecksum)
           else
             (case readHeader (drop 8 trailer) of
                Inl e \<Rightarrow> (d, e)
              | Inr body \<Rightarrow> (case gunzip_members F body of (d', e) \<Rightarrow> (d @ d', e)))))"
  by pat_completeness auto
termination
proof -
  have str: "\<And>bs r. readString bs = Inr r \<Longrightarrow> length r \<le> length bs"
    by (auto simp: readString_def Let_def split: if_splits)
  have ext: "\<And>bs r. readExtra bs = Inr r \<Longrightarrow> length r \<le> length bs"
    by (auto simp: readExtra_def Let_def split: if_splits)
  have hcrc: "\<And>w bs r. readHdrCrc w bs = Inr r \<Longrightarrow> length r \<le> length bs"
    by (auto simp: readHdrCrc_def Let_def split: if_splits)
  have opt: "\<And>p f bs r. optional p f bs = Inr r \<Longrightarrow>
      (\<And>r. f bs = Inr r \<Longrightarrow> length r \<le> length bs) \<Longrightarrow> length r \<le> length bs"
    by (auto simp: optional_def split: if_splits)
  have hdr: "\<And>bs r. readHeader bs = Inr r \<Longrightarrow> length r + 10 \<le> length bs"
    apply (simp add: readHeader_def Let_def split: if_splits sum.splits)
    apply (drule opt, erule ext)
    apply (drule opt, erule str)
    apply (drule opt, erule str)
    apply (drule opt, erule hcrc)
    apply simp
    done
  show ?thesis
    by (relation "measure (\<lambda>(F, bs). length bs)") (auto dest!: hdr)
qed

declare gunzip_members.simps [simp del]

subsection \<open>Reading\<close>

record gzip_reader =
  pending :: "byte list"
  final :: lib_error

definition gzip_NewReader :: "flate_lib \<Rightarrow> byte list \<Rightarrow> lib_error + gzip_reader" where
  "gzip_NewReader F bs =
     (case readHeader bs of
        Inl e \<Rightarrow> Inl e
      | Inr body \<Rightarrow>
          (case gunzip_members F body of (d, e) \<Rightarrow> Inr \<lparr>pending = d, final = e\<rparr>))"

text \<open>
  \<^verbatim>\<open>Read\<close> into a buffer of \<open>k\<close> bytes: the bytes, the error if any, and the
  reader afterwards. Once the data are used up every read returns the final status.
\<close>

definition gzip_Read ::
  "flate_lib \<Rightarrow> gzip_reader \<Rightarrow> nat \<Rightarrow> byte list \<times> lib_error option \<times> gzip_reader" where
  "gzip_Read F r k =
     (if pending r = [] then ([], Some (final r), r)
      else
        let n = min k (min (Suc (read_cap F)) (length (pending r)));
            r' = r\<lparr>pending := drop n (pending r)\<rparr>
        in (take n (pending r),
            if pending r' = [] \<and> read_eager F then Some (final r) else None,
            r'))"

section \<open>The bounded reader\<close>

text \<open>
  \<^verbatim>\<open>io.LimitedReader\<close>: the wrapped reader and the number of bytes still allowed
  ("Read returns EOF when N <= 0 or when the underlying R returns EOF"). With nothing left
  it reports \<open>EOF\<close> without touching the wrapped reader; otherwise it shortens the
  buffer to \<open>N\<close> bytes, reads, and takes what it got off \<open>N\<close>. \<open>N\<close> is an
  \<^verbatim>\<open>int64\<close> that starts at the limit and only shrinks towards zero, so an integer
  stands for it.
\<close>

record limited_reader =
  R :: gzip_reader
  N :: int

definition LimitedReader_Read ::
  "flate_lib \<Rightarrow> limited_reader \<Rightarrow> nat \<Rightarrow> byte list \<times> lib_error option \<times> limited_reader" where
  "LimitedReader_Read F l k =
     (if N l \<le> 0 then ([], Some EOF, l)
      else
        let k' = (if int k > N l then nat (N l) else k) in
        (case gzip_Read F (R l) k' of
           (bs, err, r') \<Rightarrow> (bs, err, \<lparr>R = r', N = N l - int (length bs)\<rparr>)))"

text \<open>
  \<^verbatim>\<open>io.Copy(io.Discard, lr)\<close> reads into a buffer of 8192 bytes until a read reports
  an error; \<open>EOF\<close> ends the copy without error ("A successful Copy returns err == nil,
  not err == EOF").
\<close>

function discard_ReadFrom :: "flate_lib \<Rightarrow> limited_reader \<Rightarrow> lib_error option \<times> limited_reader" where
  "discard_ReadFrom F l =
     (case LimitedReader_Read F l 8192 of
        (bs, Some e, l') \<Rightarrow> (if e = EOF then None else Some e, l')
      | (bs, None, l') \<Rightarrow> discard_ReadFrom F l')"
  by pat_completeness auto
termination
proof -
  have dec: "\<And>F l k bs l'. LimitedReader_Read F l k = (bs, None, l') \<Longrightarrow> 0 < k \<Longrightarrow>
      length (pending (R l')) < length (pending (R l))"
    by (auto simp: LimitedReader_Read_def gzip_Read_def Let_def split: if_splits)
  show ?thesis
    by (relation "measure (\<lambda>(F, l). length (pending (R l)))") (auto dest!: dec [OF sym])
qed

section \<open>The JSON decoder\<close>

definition isSpace :: "byte \<Rightarrow> bool" where
  "isSpace c = (c = 0x20 \<or> c = 0x09 \<or> c = 0x0d \<or> c = 0x0a)"

definition nonSpace :: "byte list \<Rightarrow> bool" where
  "nonSpace b = (\<exists>c \<in> set b. \<not> isSpace c)"

definition scan_buf :: "'v json_lib \<Rightarrow> byte list \<Rightarrow> scan_result" where
  "scan_buf J buf = (if buf = [] then ScanMore else scan J buf)"

text \<open>
  \<^verbatim>\<open>refill\<close> reads into the free space of the buffer. \<open>spare\<close> is that space,
  capacity less length; with less than 512 bytes of it the capacity \<open>c\<close> becomes
  \<open>2 * c + 512\<close>.
\<close>

definition grow :: "nat \<Rightarrow> nat \<Rightarrow> nat" where
  "grow len spare = (if spare < 512 then 2 * (len + spare) + 512 - len else spare)"

text \<open>
  \<^verbatim>\<open>readValue\<close>: scan what is buffered; a complete value or a syntax error ends the
  loop; otherwise the error of the last read is looked at, and without one the buffer is
  refilled. The result is the length of the value or the error, the reader and the buffer.
\<close>

function readValue ::
  "'v json_lib \<Rightarrow> flate_lib \<Rightarrow> limited_reader \<Rightarrow> byte list \<Rightarrow> nat \<Rightarrow> lib_error option
     \<Rightarrow> (lib_error + nat) \<times> limited_reader \<times> byte list" where
  "readValue J F l buf spare err =
     (case scan_buf J buf of
        ScanEnd n \<Rightarrow> (Inr n, l, buf)
      | ScanError \<Rightarrow> (Inl SyntaxError, l, buf)
      | ScanMore \<Rightarrow>
          (case err of
             Some e \<Rightarrow>
               (if e = EOF then
                  (if scan_eof J buf then (Inr (length buf), l, buf)
                   else if nonSpace buf then (Inl ErrUnexpectedEOF, l, buf)
                   else (Inl EOF, l, buf))
                else (Inl e, l, buf))
           | None \<Rightarrow>
               (case LimitedReader_Read F l (grow (length buf) spare) of
                  (bs, err', l') \<Rightarrow>
                    readValue J F l' (buf @ bs) (grow (length buf) spare - length bs) err')))"
  by pat_completeness auto
termination
proof -
  have dec: "\<And>F l k bs e l'. (bs, e, l') = LimitedReader_Read F l k \<Longrightarrow> 0 < k \<Longrightarrow>
      length (pending (R l')) \<le> length (pending (R l))
      \<and> (e = None \<longrightarrow> length (pending (R l')) < length (pending (R l)))"
    by (auto simp: LimitedReader_Read_def gzip_Read_def Let_def split: if_splits)
  have pos: "\<And>len spare. grow len spare \<noteq> 0"
    by (auto simp: grow_def)
  show ?thesis
    by (relation "measure (\<lambda>(J, F, l, buf, spare, err).
             2 * length (pending (R l)) + (if err = None then 1 else 0))")
       (auto dest!: dec simp: pos)
qed


declare readValue.simps [simp del]

declare discard_ReadFrom.simps [simp del]

text \<open>The first \<^verbatim>\<open>Decode\<close> of a fresh decoder: read one value, then store it.\<close>

definition json_Decode ::
  "'v json_lib \<Rightarrow> flate_lib \<Rightarrow> limited_reader \<Rightarrow> 'v
     \<Rightarrow> lib_error option \<times> limited_reader \<times> 'v" where
  "json_Decode J F l dst =
     (case readValue J F l [] 0 None of
        (Inl e, l', buf) \<Rightarrow> (Some e, l', dst)
      | (Inr n, l', buf) \<Rightarrow>
          (case Unmarshal J (take n buf) dst of (err, dst') \<Rightarrow> (err, l', dst')))"

section \<open>Decompress\<close>

definition defaultMaxDecompressedSize :: int where
  "defaultMaxDecompressedSize = 4 * 1024 * 1024"

definition size_limit_error :: "int \<Rightarrow> app_error" where
  "size_limit_error m =
     errors_Errorf InvalidParams (''decompressed size exceeds limit: '' @ show_int m @ '' bytes'')"

text \<open>
  The result is the error and the destination as the call leaves it; \<open>None\<close> as the
  destination is the nil pointer.
\<close>

definition Decompress ::
  "'v json_lib \<Rightarrow> flate_lib \<Rightarrow> byte list \<Rightarrow> 'v option \<Rightarrow> int
     \<Rightarrow> app_error option \<times> 'v option" where
  "Decompress J F compressedData out maxUncompressed =
     (if compressedData = [] then
        (Some (errors_New InvalidParams ''compressedData cannot be empty''), out)
      else
        (case out of
           None \<Rightarrow> (Some (errors_New InvalidParams ''output pointer cannot be nil''), None)
         | Some dst \<Rightarrow>
             (let maxU = (if maxUncompressed \<le> 0 then defaultMaxDecompressedSize
                          else maxUncompressed)
              in case gzip_NewReader F compressedData of
                Inl err \<Rightarrow>
                  (Some (errors_Wrapf err InternalServerError ''failed to create gzip reader''),
                   Some dst)
              | Inr gr \<Rightarrow>
                  (case json_Decode J F \<lparr>R = gr, N = maxU\<rparr> dst of
                     (Some err, lr, dst') \<Rightarrow>
                       (if N lr \<le> 0 then (Some (size_limit_error maxU), Some dst')
                        else (Some (errors_Wrapf err InternalServerError
                                ''failed to decode JSON''), Some dst'))
                   | (None, lr, dst') \<Rightarrow>
                       (case discard_ReadFrom F lr of
                          (Some err, lr') \<Rightarrow>
                            (if N lr' \<le> 0 then (Some (size_limit_error maxU), Some dst')
                             else (Some (errors_Wrapf err InternalServerError
                                     ''failed to verify complete gzip stream''), Some dst'))
                        | (None, lr') \<Rightarrow> (None, Some dst'))))))"

section \<open>What the codec expects of the library\<close>

text \<open>
  The deflate pair is faithful on \<open>d\<close> when inflating the compressed form of \<open>d\<close>,
  whatever follows it in the input, gives \<open>d\<close> back and stops where the compressed
  form ends.
\<close>

definition flate_faithful :: "flate_lib \<Rightarrow> byte list \<Rightarrow> bool" where
  "flate_faithful F d =
     (\<forall>rest. inflate F (deflate F d @ rest) = (d, Inr (length (deflate F d))))"

text \<open>
  The JSON library is faithful on a value when the text \<open>js\<close> it marshals to is
  delimited by the scanner (no shorter prefix is a complete value, and the value is
  complete at its last byte or at the newline that the encoder appends) and is stored back
  into the destination as the value. This is what "encodable" means below.
\<close>

definition scan_delimits :: "'v json_lib \<Rightarrow> byte list \<Rightarrow> nat \<Rightarrow> bool" where
  "scan_delimits J js d =
     list_all (\<lambda>n. scan_buf J (take n (js @ [0x0a]))
                    = (if n < d then ScanMore else ScanEnd (length js)))
       [0..<length js + 2]"

definition json_faithful :: "'v json_lib \<Rightarrow> 'v \<Rightarrow> byte list \<Rightarrow> 'v \<Rightarrow> bool" where
  "json_faithful J v js dst =
     (Marshal J v = Inr js
      \<and> (scan_delimits J js (length js) \<or> scan_delimits J js (length js + 1))
      \<and> Unmarshal J js dst = (None, v))"

section \<open>A small instance of the library\<close>

text \<open>
  The concrete runs below need a library to run on. For deflate it is the stored-block
  encoding of RFC 1951 (which every inflater accepts); compressed blocks are outside the
  instance, and its inflater reports them as corrupt.
\<close>

definition le_bytes16 :: "16 word \<Rightarrow> byte list" where
  "le_bytes16 w = [ucast w, ucast (drop_bit 8 w)]"

function stored_deflate :: "byte list \<Rightarrow> byte list" where
  "stored_deflate d =
     (if length d \<le> 65535 then
        [1] @ le_bytes16 (of_nat (length d)) @ le_bytes16 (NOT (of_nat (length d))) @ d
      else
        [0] @ le_bytes16 65535 @ le_bytes16 0 @ take 65535 d @ stored_deflate (drop 65535 d))"
  by pat_completeness auto
termination
  by (relation "measure length") auto

declare stored_deflate.simps [simp del]

function stored_inflate :: "byte list \<Rightarrow> byte list \<times> (lib_error + nat)" where
  "stored_inflate bs =
     (case bs of
        [] \<Rightarrow> ([], Inl ErrUnexpectedEOF)
      | h # r \<Rightarrow>
          if h AND 6 \<noteq> 0 then ([], Inl CorruptInput)
          else if length r < 4 then ([], Inl ErrUnexpectedEOF)
          else if le_uint16 (drop 2 r) \<noteq> NOT (le_uint16 r) then ([], Inl CorruptInput)
          else
            let len = unat (le_uint16 r); body = drop 4 r in
            if length body < len then (body, Inl ErrUnexpectedEOF)
            else if h AND 1 \<noteq> 0 then (take len body, Inr (5 + len))
            else
              (case stored_inflate (drop len body) of
                 (d, Inl e) \<Rightarrow> (take len body @ d, Inl e)
               | (d, Inr n) \<Rightarrow> (take len body @ d, Inr (5 + len + n))))"
  by pat_completeness auto
termination
  by (relation "measure length") auto

declare stored_inflate.simps [simp del]

definition stored_flate :: "nat \<Rightarrow> bool \<Rightarrow> flate_lib" where
  "stored_flate c e =
     \<lparr>deflate = stored_deflate, inflate = stored_inflate, read_cap = c, read_eager = e\<rparr>"

text \<open>
  For JSON it is the fragment of nil pointers, booleans and strings of printable ASCII
  characters that need no escape, with a channel as the value that has no JSON form.
  Numbers, arrays, objects and strings with escapes are outside the fragment; the
  instance reports an error for them. Every concrete run below stays inside it.
\<close>

datatype go_value = GoNilPtr | GoBool bool | GoString "byte list" | GoChan

definition plain :: "byte \<Rightarrow> bool" where
  "plain c = (0x20 \<le> c \<and> c \<le> 0x7e \<and> c \<noteq> 0x22 \<and> c \<noteq> 0x5c \<and> c \<noteq> 0x3c \<and> c \<noteq> 0x3e \<and> c \<noteq> 0x26)"

definition json_quote :: "byte list \<Rightarrow> byte list" where
  "json_quote s = 0x22 # s @ [0x22]"

definition lit_Marshal :: "go_value \<Rightarrow> lib_error + byte list" where
  "lit_Marshal v =
     (case v of
        GoNilPtr \<Rightarrow> Inr (bytes_of ''null'')
      | GoBool b \<Rightarrow> Inr (bytes_of (if b then ''true'' else ''false''))
      | GoString s \<Rightarrow> (if list_all plain s then Inr (json_quote s) else Inl UnsupportedType)
      | GoChan \<Rightarrow> Inl UnsupportedType)"

definition lit_TypeName :: "go_value \<Rightarrow> string" where
  "lit_TypeName v =
     (case v of GoNilPtr \<Rightarrow> ''*int'' | GoBool b \<Rightarrow> ''bool'' | GoString s \<Rightarrow> ''string''
      | GoChan \<Rightarrow> ''chan int'')"

text \<open>
  The scanner: white space before the value, a literal or a string, and the end of the
  value, which is reported at the byte that follows it.
\<close>

datatype lit_state =
    BeginValue
  | InLiteral "byte list"
  | InString
  | InStringEsc
  | InStringEscU nat
  | EndValue

datatype lit_outcome = Continue lit_state | StepEnd | StepError

definition isHex :: "byte \<Rightarrow> bool" where
  "isHex c = ((0x30 \<le> c \<and> c \<le> 0x39) \<or> (0x61 \<le> c \<and> c \<le> 0x66) \<or> (0x41 \<le> c \<and> c \<le> 0x46))"

fun lit_step :: "lit_state \<Rightarrow> byte \<Rightarrow> lit_outcome" where
  "lit_step BeginValue c =
     (if isSpace c then Continue BeginValue
      else if c = 0x22 then Continue InString
      else if c = 0x74 then Continue (InLiteral (bytes_of ''rue''))
      else if c = 0x66 then Continue (InLiteral (bytes_of ''alse''))
      else if c = 0x6e then Continue (InLiteral (bytes_of ''ull''))
      else StepError)"
| "lit_step (InLiteral []) c = StepError"
| "lit_step (InLiteral (x # xs)) c =
     (if c = x then Continue (if xs = [] then EndValue else InLiteral xs) else StepError)"
| "lit_step InString c =
     (if c = 0x22 then Continue EndValue
      else if c = 0x5c then Continue InStringEsc
      else if c < 0x20 then StepError
      else Continue InString)"
| "lit_step InStringEsc c =
     (if c \<in> set [0x62, 0x66, 0x6e, 0x72, 0x74, 0x5c, 0x2f, 0x22] then Continue InString
      else if c = 0x75 then Continue (InStringEscU 4)
      else StepError)"
| "lit_step (InStringEscU k) c =
     (if isHex c then Continue (if k \<le> 1 then InString else InStringEscU (k - 1)) else StepError)"
| "lit_step EndValue c = StepEnd"

fun lit_run :: "lit_state \<Rightarrow> nat \<Rightarrow> byte list \<Rightarrow> scan_result \<times> lit_state" where
  "lit_run s i [] = (ScanMore, s)"
| "lit_run s i (c # cs) =
     (case lit_step s c of
        Continue s' \<Rightarrow> lit_run s' (Suc i) cs
      | StepEnd \<Rightarrow> (ScanEnd i, s)
      | StepError \<Rightarrow> (ScanError, s))"

definition lit_scan :: "byte list \<Rightarrow> scan_result" where
  "lit_scan buf = fst (lit_run BeginValue 0 buf)"

definition lit_scan_eof :: "byte list \<Rightarrow> bool" where
  "lit_scan_eof buf = (lit_run BeginValue 0 buf = (ScanMore, EndValue))"

definition lit_Unmarshal :: "byte list \<Rightarrow> go_value \<Rightarrow> lib_error option \<times> go_value" where
  "lit_Unmarshal text dst =
     (let t = dropWhile isSpace text in
      if t = bytes_of ''null'' then (None, dst)
      else if t = bytes_of ''true'' \<or> t = bytes_of ''false'' then
        (case dst of
           GoBool b \<Rightarrow> (None, GoBool (t = bytes_of ''true''))
         | _ \<Rightarrow> (Some UnmarshalType, dst))
      else if 2 \<le> length t \<and> hd t = 0x22 \<and> last t = 0x22 \<and> list_all plain (butlast (tl t)) then
        (case dst of
           GoString s \<Rightarrow> (None, GoString (butlast (tl t)))
         | _ \<Rightarrow> (Some UnmarshalType, dst))
      else (Some SyntaxError, dst))"

definition lit_json :: "go_value json_lib" where
  "lit_json =
     \<lparr>Marshal = lit_Marshal, TypeName = lit_TypeName, scan = lit_scan,
      scan_eof = lit_scan_eof, Unmarshal = lit_Unmarshal\<rparr>"

section \<open>Reading through the bounded reader\<close>

lemma LimitedReader_Read_some:
  assumes "0 < N l" "pending (R l) \<noteq> []" "0 < k"
  shows "\<exists>n. 0 < n \<and> n \<le> length (pending (R l)) \<and> int n \<le> N l \<and> n \<le> k \<and>
           LimitedReader_Read F l k =
             (take n (pending (R l)),
              if n = length (pending (R l)) \<and> read_eager F then Some (final (R l)) else None,
              \<lparr>R = (R l)\<lparr>pending := drop n (pending (R l))\<rparr>, N = N l - int n\<rparr>)"
proof -
  define k' where "k' = (if int k > N l then nat (N l) else k)"
  define n where "n = min k' (min (Suc (read_cap F)) (length (pending (R l))))"
  have k': "0 < k'" "int k' \<le> N l" "k' \<le> k"
    using assms by (auto simp: k'_def)
  have n: "0 < n" "n \<le> length (pending (R l))" "int n \<le> N l" "n \<le> k"
    using k' assms by (auto simp: n_def)
  have "LimitedReader_Read F l k =
             (take n (pending (R l)),
              if n = length (pending (R l)) \<and> read_eager F then Some (final (R l)) else None,
              \<lparr>R = (R l)\<lparr>pending := drop n (pending (R l))\<rparr>, N = N l - int n\<rparr>)"
    unfolding LimitedReader_Read_def gzip_Read_def Let_def k'_def [symmetric] n_def [symmetric]
    using assms n by auto
  with n show ?thesis by blast
qed

lemma readValue_reads_value:
  assumes sc: "\<And>n. n \<le> length text \<Longrightarrow>
                 scan_buf J (take n text) = (if n < d then ScanMore else ScanEnd e)"
    and d: "d \<le> length text" "int d \<le> m"
  shows "k \<le> length text \<Longrightarrow> buf = take k text \<Longrightarrow> pending (R l) = drop k text \<Longrightarrow>
         N l = m - int k \<Longrightarrow> (err \<noteq> None \<Longrightarrow> d \<le> k) \<Longrightarrow>
         \<exists>k' l'. d \<le> k' \<and> k' \<le> length text \<and>
           readValue J F l buf spare err = (Inr e, l', take k' text) \<and>
           pending (R l') = drop k' text \<and> final (R l') = final (R l) \<and> N l' = m - int k'"
proof (induction "length text - k" arbitrary: k l buf spare err rule: less_induct)
  case less
  note st = less.prems
  show ?case
  proof (cases "k < d")
    case False
    then have "scan_buf J buf = ScanEnd e"
      using sc [of k] st by simp
    then have "readValue J F l buf spare err = (Inr e, l, take k text)"
      using st by (simp add: readValue.simps)
    with False st show ?thesis
      by (intro exI [of _ k] exI [of _ l]) simp
  next
    case True
    then have err: "err = None" using st(5) by fastforce
    have scan: "scan_buf J buf = ScanMore"
      using sc [of k] st True by simp
    have pos: "0 < N l" "pending (R l) \<noteq> []" "0 < grow (length buf) spare"
      using True d st by (auto simp: grow_def)
    from LimitedReader_Read_some [OF pos, of F]
    obtain n where n: "0 < n" "n \<le> length (pending (R l))" "int n \<le> N l"
      and rd: "LimitedReader_Read F l (grow (length buf) spare) =
             (take n (pending (R l)),
              if n = length (pending (R l)) \<and> read_eager F then Some (final (R l)) else None,
              \<lparr>R = (R l)\<lparr>pending := drop n (pending (R l))\<rparr>, N = N l - int n\<rparr>)"
      by blast
    let ?l' = "\<lparr>R = (R l)\<lparr>pending := drop n (pending (R l))\<rparr>, N = N l - int n\<rparr>"
    let ?err' = "if n = length (pending (R l)) \<and> read_eager F then Some (final (R l)) else None"
    have step: "readValue J F l buf spare err =
        readValue J F ?l' (buf @ take n (pending (R l))) (grow (length buf) spare - length (take n (pending (R l)))) ?err'"
      by (subst readValue.simps) (simp add: scan err rd del: length_take)
    have kn: "k + n \<le> length text" using n st by simp
    have buf': "buf @ take n (pending (R l)) = take (k + n) text"
      using st by (simp add: take_add)
    have IH: "\<exists>k' l'. d \<le> k' \<and> k' \<le> length text \<and>
           readValue J F ?l' (buf @ take n (pending (R l))) (grow (length buf) spare - length (take n (pending (R l)))) ?err' = (Inr e, l', take k' text) \<and>
           pending (R l') = drop k' text \<and> final (R l') = final (R ?l') \<and> N l' = m - int k'"
    proof (rule less.hyps [of "k + n"])
      show "length text - (k + n) < length text - k" using n kn st by simp
      show "k + n \<le> length text" by (rule kn)
      show "buf @ take n (pending (R l)) = take (k + n) text" by (rule buf')
      show "pending (R ?l') = drop (k + n) text" using st by (simp add: add.commute)
      show "N ?l' = m - int (k + n)" using st by simp
      show "d \<le> k + n" if "?err' \<noteq> None"
        using that d st by (simp split: if_splits)
    qed
    then show ?thesis unfolding step by simp
  qed
qed


lemma readValue_limit_hit:
  assumes sc: "\<And>n. n \<le> nat m \<Longrightarrow> scan_buf J (take n text) = ScanMore"
    and m: "0 < m" "nat m < length text"
    and eof: "\<not> scan_eof J (take (nat m) text)"
  shows "k \<le> nat m \<Longrightarrow> buf = take k text \<Longrightarrow> pending (R l) = drop k text \<Longrightarrow>
         N l = m - int k \<Longrightarrow> (err \<noteq> None \<Longrightarrow> err = Some EOF \<and> k = nat m) \<Longrightarrow>
         \<exists>e l' b. readValue J F l buf spare err = (Inl e, l', b) \<and> N l' = 0"
proof (induction "2 * (nat m - k) + (if err = None then 1 else 0)"
         arbitrary: k l buf spare err rule: less_induct)
  case less
  note st = less.prems
  have scan: "scan_buf J buf = ScanMore"
    using sc [of k] st by simp
  show ?case
  proof (cases err)
    case (Some x)
    then have x: "x = EOF" "k = nat m" using st(5) by auto
    have ne: "\<not> scan_eof J buf" using eof st x by simp
    have "readValue J F l buf spare err
            = (Inl (if nonSpace buf then ErrUnexpectedEOF else EOF), l, buf)"
      by (subst readValue.simps) (simp add: scan ne Some x)
    moreover have "N l = 0" using st x m by simp
    ultimately show ?thesis by blast
  next
    case None
    show ?thesis
    proof (cases "k = nat m")
      case True
      then have N0: "N l \<le> 0" using st m by simp
      then have rd: "LimitedReader_Read F l (grow (length buf) spare) = ([], Some EOF, l)"
        by (simp add: LimitedReader_Read_def)
      have step: "readValue J F l buf spare err = readValue J F l buf (grow (length buf) spare) (Some EOF)"
        by (subst readValue.simps) (simp add: scan None rd)
      have "\<exists>e l' b. readValue J F l buf (grow (length buf) spare) (Some EOF) = (Inl e, l', b) \<and> N l' = 0"
        by (rule less.hyps [of k]) (use st None True in auto)
      then show ?thesis unfolding step .
    next
      case False
      then have lt: "k < nat m" using st by simp
      have pos: "0 < N l" "pending (R l) \<noteq> []" "0 < grow (length buf) spare"
        using lt m st by (auto simp: grow_def)
      from LimitedReader_Read_some [OF pos, of F]
      obtain n where n: "0 < n" "n \<le> length (pending (R l))" "int n \<le> N l"
        and rd: "LimitedReader_Read F l (grow (length buf) spare) =
             (take n (pending (R l)),
              if n = length (pending (R l)) \<and> read_eager F then Some (final (R l)) else None,
              \<lparr>R = (R l)\<lparr>pending := drop n (pending (R l))\<rparr>, N = N l - int n\<rparr>)"
        by blast
      have kn: "k + n \<le> nat m" using n st lt by simp
      then have nl: "n \<noteq> length (pending (R l))" using st m by simp
      let ?l' = "\<lparr>R = (R l)\<lparr>pending := drop n (pending (R l))\<rparr>, N = N l - int n\<rparr>"
      let ?sp = "grow (length buf) spare - length (take n (pending (R l)))"
      have step: "readValue J F l buf spare err =
          readValue J F ?l' (buf @ take n (pending (R l))) ?sp None"
        by (subst readValue.simps) (simp add: scan None rd nl del: length_take)
      have "\<exists>e l' b. readValue J F ?l' (buf @ take n (pending (R l))) ?sp None = (Inl e, l', b) \<and> N l' = 0"
      proof (rule less.hyps [of "k + n"])
        show "2 * (nat m - (k + n)) + (if (None :: lib_error option) = None then 1 else 0)
              < 2 * (nat m - k) + (if err = None then 1 else 0)"
          using n kn None by simp
        show "k + n \<le> nat m" by (rule kn)
        show "buf @ take n (pending (R l)) = take (k + n) text"
          using st by (simp add: take_add)
        show "pending (R ?l') = drop (k + n) text" using st by (simp add: add.commute)
        show "N ?l' = m - int (k + n)" using st by simp
      qed simp
      then show ?thesis unfolding step .
    qed
  qed
qed

lemma LimitedReader_Read_cases:
  "LimitedReader_Read F l k = (bs, err, l') \<Longrightarrow>
     final (R l') = final (R l) \<and> (err = None \<or> err = Some EOF \<or> err = Some (final (R l)))"
  by (auto simp: LimitedReader_Read_def gzip_Read_def Let_def split: if_splits)

lemma discard_clean:
  "final (R l) = EOF \<Longrightarrow> fst (discard_ReadFrom F l) = None"
proof (induction F l rule: discard_ReadFrom.induct)
  case (1 F l)
  obtain bs err l' where rd: "LimitedReader_Read F l 8192 = (bs, err, l')"
    by (cases "LimitedReader_Read F l 8192") auto
  from LimitedReader_Read_cases [OF rd] "1.prems"
  have c: "final (R l') = EOF" "err = None \<or> err = Some EOF" by auto
  show ?case
  proof (cases err)
    case None
    with "1.IH" [OF rd [symmetric]] c rd show ?thesis
      by (subst discard_ReadFrom.simps) simp
  next
    case (Some e)
    with c rd show ?thesis
      by (subst discard_ReadFrom.simps) simp
  qed
qed

lemma discard_exhausted: "N l \<le> 0 \<Longrightarrow> discard_ReadFrom F l = (None, l)"
  by (subst discard_ReadFrom.simps) (simp add: LimitedReader_Read_def)

lemma discard_reports:
  "final (R l) \<noteq> EOF \<Longrightarrow> int (length (pending (R l))) < N l \<Longrightarrow>
     \<exists>l'. discard_ReadFrom F l = (Some (final (R l)), l') \<and> 0 < N l'"
proof (induction "length (pending (R l))" arbitrary: l rule: less_induct)
  case less
  show ?case
  proof (cases "pending (R l) = []")
    case True
    then have "LimitedReader_Read F l 8192 = ([], Some (final (R l)), l)"
      using less.prems by (simp add: LimitedReader_Read_def gzip_Read_def)
    then have "discard_ReadFrom F l = (Some (final (R l)), l)"
      using less.prems by (subst discard_ReadFrom.simps) simp
    then show ?thesis using less.prems by simp
  next
    case False
    have pos: "0 < N l" "pending (R l) \<noteq> []" "0 < (8192 :: nat)"
      using False less.prems by auto
    from LimitedReader_Read_some [OF pos, of F]
    obtain n where n: "0 < n" "n \<le> length (pending (R l))" "int n \<le> N l"
      and rd: "LimitedReader_Read F l 8192 =
             (take n (pending (R l)),
              if n = length (pending (R l)) \<and> read_eager F then Some (final (R l)) else None,
              \<lparr>R = (R l)\<lparr>pending := drop n (pending (R l))\<rparr>, N = N l - int n\<rparr>)"
      by blast
    let ?l' = "\<lparr>R = (R l)\<lparr>pending := drop n (pending (R l))\<rparr>, N = N l - int n\<rparr>"
    show ?thesis
    proof (cases "n = length (pending (R l)) \<and> read_eager F")
      case True
      then have e: "(if n = length (pending (R l)) \<and> read_eager F
                      then Some (final (R l)) else None) = Some (final (R l))"
        by simp
      have "discard_ReadFrom F l = (Some (final (R l)), ?l')"
        using less.prems(1)
        by (subst discard_ReadFrom.simps) (simp only: rd e prod.case option.case if_False)
      moreover have "0 < N ?l'" using True less.prems by simp
      ultimately show ?thesis by blast
    next
      case False
      then have e: "(if n = length (pending (R l)) \<and> read_eager F
                      then Some (final (R l)) else None) = None"
        by simp
      have step: "discard_ReadFrom F l = discard_ReadFrom F ?l'"
        by (subst discard_ReadFrom.simps) (simp only: rd e prod.case option.case)
      have "\<exists>l'. discard_ReadFrom F ?l' = (Some (final (R ?l')), l') \<and> 0 < N l'"
        by (rule less.hyps) (use n less.prems in auto)
      then show ?thesis unfolding step by simp
    qed
  qed
qed

section \<open>The gzip container\<close>

lemma le_uint32_le_bytes32: "le_uint32 (le_bytes32 w @ xs) = w"
  unfolding le_uint32_def le_bytes32_def
  apply simp
  apply (rule bit_word_eqI)
  subgoal for n
    by (cases "n < 8"; cases "n < 16"; cases "n < 24") (auto simp: bit_simps)
  done

lemma le_uint32_le_bytes32': "le_uint32 (le_bytes32 w) = w"
  using le_uint32_le_bytes32 [of w "[]"] by simp

lemma length_le_bytes32: "length (le_bytes32 w) = 4"
  by (simp add: le_bytes32_def)

lemma readHeader_gzip_header: "readHeader (gzip_header @ rest) = Inr rest"
  by (simp add: readHeader_def gzip_header_def optional_def flagExtra_def flagName_def
        flagComment_def flagHdrCrc_def)

lemma gunzip_members_whole:
  assumes "flate_faithful F d"
  shows "gunzip_members F (deflate F d @ le_bytes32 (crc32 d) @ le_bytes32 (of_nat (length d)))
           = (d, EOF)"
  using assms
  apply (subst gunzip_members.simps)
  apply (simp add: flate_faithful_def length_le_bytes32 le_uint32_le_bytes32
           le_uint32_le_bytes32' readHeader_def)
  done

lemma gzip_NewReader_member:
  "flate_faithful F d \<Longrightarrow> gzip_NewReader F (gzip_member F d) = Inr \<lparr>pending = d, final = EOF\<rparr>"
  by (simp add: gzip_NewReader_def gzip_member_def readHeader_gzip_header gunzip_members_whole)

lemma gunzip_members_truncated:
  assumes "flate_faithful F d"
  shows "gunzip_members F (deflate F d @ le_bytes32 (crc32 d)) = (d, ErrUnexpectedEOF)"
  using assms
  apply (subst gunzip_members.simps)
  apply (simp add: flate_faithful_def length_le_bytes32)
  done

lemma truncate_member:
  "take (length (gzip_member F d) - 4) (gzip_member F d)
     = gzip_header @ deflate F d @ le_bytes32 (crc32 d)"
  by (simp add: gzip_member_def length_le_bytes32)

lemma gzip_NewReader_truncated:
  "flate_faithful F d \<Longrightarrow>
     gzip_NewReader F (take (length (gzip_member F d) - 4) (gzip_member F d))
       = Inr \<lparr>pending = d, final = ErrUnexpectedEOF\<rparr>"
  by (simp only: truncate_member)
     (simp add: gzip_NewReader_def readHeader_gzip_header gunzip_members_truncated)

section \<open>Consequences of the library contracts\<close>

lemma scan_delimitsD:
  assumes "scan_delimits J js d" and "n \<le> length js + 1"
  shows "scan_buf J (take n (js @ [0x0a])) = (if n < d then ScanMore else ScanEnd (length js))"
proof -
  have "n \<in> set [0..<length js + 2]"
    using assms(2) by (simp only: set_upt atLeastLessThan_iff) linarith
  with assms(1) show ?thesis
    unfolding scan_delimits_def list_all_iff by blast
qed

lemma json_faithful_scan:
  assumes "json_faithful J v js dst"
  shows "\<exists>d. length js \<le> d \<and> d \<le> length js + 1 \<and>
           (\<forall>n \<le> length js + 1. scan_buf J (take n (js @ [0x0a]))
                      = (if n < d then ScanMore else ScanEnd (length js)))"
proof -
  from assms consider "scan_delimits J js (length js)" | "scan_delimits J js (length js + 1)"
    by (auto simp: json_faithful_def)
  then show ?thesis
  proof cases
    case 1
    then show ?thesis
      by (intro exI [of _ "length js"]) (simp add: scan_delimitsD del: take_append)
  next
    case 2
    then show ?thesis
      by (intro exI [of _ "length js + 1"]) (simp add: scan_delimitsD del: take_append)
  qed
qed

lemma Compress_faithful:
  "Marshal J v = Inr js \<Longrightarrow> Compress J F (Some v) = (Some (gzip_member F (js @ [0x0a])), None)"
  by (simp add: Compress_def json_Encode_def gzip_Close_def)

lemma gzip_member_nonempty: "gzip_member F d \<noteq> []"
  by (simp add: gzip_member_def gzip_header_def)

lemma json_Decode_faithful:
  assumes jf: "json_faithful J v js dst"
    and lim: "int (length js) + 1 \<le> m"
    and l: "pending (R l) = js @ [0x0a]" "N l = m"
  shows "\<exists>k l'. length js \<le> k \<and> k \<le> length js + 1 \<and>
           json_Decode J F l dst = (None, l', v) \<and>
           pending (R l') = drop k (js @ [0x0a]) \<and> final (R l') = final (R l) \<and> N l' = m - int k"
proof -
  let ?text = "js @ [0x0a]"
  from json_faithful_scan [OF jf] obtain d where d: "length js \<le> d" "d \<le> length js + 1"
    and sc: "\<And>n. n \<le> length ?text \<Longrightarrow>
       scan_buf J (take n ?text) = (if n < d then ScanMore else ScanEnd (length js))"
    by auto
  have um: "Unmarshal J js dst = (None, v)" using jf by (simp add: json_faithful_def)
  have "\<exists>k' l'. d \<le> k' \<and> k' \<le> length ?text \<and>
           readValue J F l (take 0 ?text) 0 None = (Inr (length js), l', take k' ?text) \<and>
           pending (R l') = drop k' ?text \<and> final (R l') = final (R l) \<and> N l' = m - int k'"
    by (rule readValue_reads_value [where m = m and d = d and k = 0, OF sc])
       (use d lim l in auto)
  then obtain k' l' where k: "d \<le> k'" "k' \<le> length ?text"
    and rv: "readValue J F l [] 0 None = (Inr (length js), l', take k' ?text)"
    and l': "pending (R l') = drop k' ?text" "final (R l') = final (R l)" "N l' = m - int k'"
    by auto
  have tk: "take (min (length js) k') ?text = js"
    using k d by (simp add: min_absorb1)
  have "json_Decode J F l dst = (None, l', v)"
    by (simp add: json_Decode_def rv tk um del: take_append)
  with k d l' show ?thesis
    by (intro exI [of _ k'] exI [of _ l']) simp
qed

lemma Decompress_faithful:
  assumes "json_faithful J v js dst" and "flate_faithful F (js @ [0x0a])"
    and "int (length js) + 1 \<le> L"
  shows "Decompress J F (gzip_member F (js @ [0x0a])) (Some dst) L = (None, Some v)"
proof -
  let ?text = "js @ [0x0a]"
  let ?l = "\<lparr>R = \<lparr>pending = ?text, final = EOF\<rparr>, N = L\<rparr>"
  have L: "0 < L" using assms(3) by simp
  from json_Decode_faithful [OF assms(1,3), of ?l F]
  obtain k l' where dec: "json_Decode J F ?l dst = (None, l', v)" and fin: "final (R l') = EOF"
    by auto
  from discard_clean [OF fin, of F] obtain l'' where dr: "discard_ReadFrom F l' = (None, l'')"
    by (cases "discard_ReadFrom F l'") auto
  show ?thesis
    using L by (simp add: Decompress_def gzip_member_nonempty gzip_NewReader_member [OF assms(2)]
                  dec dr)
qed

lemma truncation_reported_above_size:
  assumes "json_faithful J v js dst" and "flate_faithful F (js @ [0x0a])"
    and "int (length js) + 1 < L"
  shows "\<exists>blob. Compress J F (Some v) = (Some blob, None)
           \<and> Decompress J F (take (length blob - 4) blob) (Some dst) L
               = (Some \<lparr>code = InternalServerError,
                         message = ''failed to verify complete gzip stream'',
                         cause = Some ErrUnexpectedEOF\<rparr>,
                  Some v)"
proof -
  let ?text = "js @ [0x0a]"
  let ?blob = "gzip_member F ?text"
  let ?l = "\<lparr>R = \<lparr>pending = ?text, final = ErrUnexpectedEOF\<rparr>, N = L\<rparr>"
  have c: "Compress J F (Some v) = (Some ?blob, None)"
    using assms(1) by (simp add: Compress_faithful json_faithful_def)
  have L: "0 < L" "int (length js) + 1 \<le> L" using assms(3) by simp_all
  from json_Decode_faithful [OF assms(1) L(2), of ?l F]
  obtain k l' where k: "k \<le> length js + 1"
    and dec: "json_Decode J F ?l dst = (None, l', v)"
    and l': "pending (R l') = drop k ?text" "final (R l') = ErrUnexpectedEOF" "N l' = L - int k"
    by auto
  have "final (R l') \<noteq> EOF" "int (length (pending (R l'))) < N l'"
    using l' k assms(3) by auto
  from discard_reports [OF this, of F] l'(2)
  obtain l'' where dr: "discard_ReadFrom F l' = (Some ErrUnexpectedEOF, l'')" "0 < N l''"
    by auto
  define tr where "tr = take (length ?blob - 4) ?blob"
  have ne: "tr \<noteq> []"
    unfolding tr_def by (simp only: truncate_member) (simp add: gzip_header_def)
  have nr: "gzip_NewReader F tr = Inr \<lparr>pending = ?text, final = ErrUnexpectedEOF\<rparr>"
    unfolding tr_def by (rule gzip_NewReader_truncated [OF assms(2)])
  have "Decompress J F tr (Some dst) L
          = (Some \<lparr>code = InternalServerError,
                    message = ''failed to verify complete gzip stream'',
                    cause = Some ErrUnexpectedEOF\<rparr>, Some v)"
    using L(1) dr by (simp add: Decompress_def ne nr dec errors_Wrapf_def)
  then have "Decompress J F (take (length ?blob - 4) ?blob) (Some dst) L
          = (Some \<lparr>code = InternalServerError,
                    message = ''failed to verify complete gzip stream'',
                    cause = Some ErrUnexpectedEOF\<rparr>, Some v)"
    unfolding tr_def .
  with c show ?thesis by blast
qed

section \<open>The instance meets the contracts\<close>

lemma le_uint16_le_bytes16: "le_uint16 (le_bytes16 w @ xs) = w"
  unfolding le_uint16_def le_bytes16_def
  apply simp
  apply (rule bit_word_eqI)
  subgoal for n
    by (cases "n < 8") (auto simp: bit_simps)
  done

lemma length_le_bytes16: "length (le_bytes16 w) = 2"
  by (simp add: le_bytes16_def)

lemma stored_faithful:
  assumes "length d \<le> 65535"
  shows "flate_faithful (stored_flate c e) d"
proof -
  have u: "unat (of_nat (length d) :: 16 word) = length d"
    using assms by (simp add: unat_of_nat)
  have df: "stored_deflate d
      = 1 # (le_bytes16 (of_nat (length d)) @ le_bytes16 (NOT (of_nat (length d))) @ d)"
    using assms by (subst stored_deflate.simps) simp
  have "stored_inflate (stored_deflate d @ rest) = (d, Inr (length (stored_deflate d)))" for rest
    unfolding df
    by (subst stored_inflate.simps)
       (simp add: le_uint16_le_bytes16 length_le_bytes16 u Let_def)
  then show ?thesis
    by (simp add: flate_faithful_def stored_flate_def)
qed



lemma lit_run_string:
  "list_all plain s \<Longrightarrow> lit_run InString i (s @ r) = lit_run InString (i + length s) r"
  by (induction s arbitrary: i) (auto simp: plain_def)

lemma lit_scan_quoted:
  assumes "list_all plain s" and "n \<le> length s + 3"
  shows "scan_buf lit_json (take n ((0x22 # s @ [0x22]) @ [0x0a]))
           = (if n < length s + 3 then ScanMore else ScanEnd (length s + 2))"
proof -
  consider "n = 0" | "0 < n" "n \<le> length s + 1" | "n = length s + 2" | "n = length s + 3"
    using assms(2) by linarith
  then show ?thesis
  proof cases
    case 1
    then show ?thesis by (simp add: scan_buf_def)
  next
    case 2
    then obtain k where k: "n = Suc k" "k \<le> length s" by (cases n) auto
    have p: "list_all plain (take k s)"
      using assms(1) by (auto simp: list_all_iff dest: in_set_takeD)
    have "lit_run InString (Suc 0) (take k s @ []) = lit_run InString (Suc 0 + length (take k s)) []"
      using p by (rule lit_run_string)
    then show ?thesis
      using k by (simp add: scan_buf_def lit_json_def lit_scan_def isSpace_def)
  next
    case 3
    have "lit_run InString (Suc 0) (s @ [0x22]) = lit_run InString (Suc 0 + length s) [0x22]"
      using assms(1) by (rule lit_run_string)
    then show ?thesis
      using 3 by (simp add: scan_buf_def lit_json_def lit_scan_def isSpace_def)
  next
    case 4
    have "lit_run InString (Suc 0) (s @ [0x22, 0x0a]) = lit_run InString (Suc 0 + length s) [0x22, 0x0a]"
      using assms(1) by (rule lit_run_string)
    then show ?thesis
      using 4 by (simp add: scan_buf_def lit_json_def lit_scan_def isSpace_def)
  qed
qed

lemma lit_faithful_string:
  assumes "list_all plain s"
  shows "json_faithful lit_json (GoString s) (json_quote s) (GoString t)"
proof -
  have m: "Marshal lit_json (GoString s) = Inr (0x22 # s @ [0x22])"
    using assms by (simp add: lit_json_def lit_Marshal_def json_quote_def)
  have sc: "scan_delimits lit_json (0x22 # s @ [0x22]) (length (0x22 # s @ [0x22]) + 1)"
    unfolding scan_delimits_def list_all_iff
  proof
    fix n
    assume "n \<in> set [0..<length (0x22 # s @ [0x22]) + 2]"
    then have n: "n \<le> length s + 3" by auto
    from lit_scan_quoted [OF assms n]
    show "scan_buf lit_json (take n ((0x22 # s @ [0x22]) @ [0x0a]))
            = (if n < length (0x22 # s @ [0x22]) + 1 then ScanMore
               else ScanEnd (length (0x22 # s @ [0x22])))"
      by simp
  qed
  have u: "Unmarshal lit_json (0x22 # s @ [0x22]) (GoString t) = (None, GoString s)"
    using assms
    by (auto simp: lit_json_def lit_Unmarshal_def Let_def isSpace_def bytes_of_def butlast_append)
  from m sc u show ?thesis by (simp add: json_faithful_def json_quote_def del: append.simps)
qed

section \<open>Concrete runs of the instance\<close>

lemmas run_eval =
  Decompress_def Compress_def json_Encode_def gzip_Close_def gzip_member_def gzip_header_def
  gzip_NewReader_def readHeader_def optional_def flagExtra_def flagName_def flagComment_def
  flagHdrCrc_def gunzip_members.simps stored_flate_def stored_deflate.simps stored_inflate.simps
  le_bytes16_def le_bytes32_def le_uint16_def le_uint32_def crc32_def crc_byte_def crc_bit_def
  json_Decode_def readValue.simps discard_ReadFrom.simps LimitedReader_Read_def gzip_Read_def
  grow_def scan_buf_def nonSpace_def isSpace_def lit_json_def lit_scan_def lit_scan_eof_def
  lit_Marshal_def lit_Unmarshal_def lit_TypeName_def plain_def bytes_of_def
  defaultMaxDecompressedSize_def size_limit_error_def errors_New_def errors_Errorf_def
  errors_Wrapf_def json_quote_def show_int_def show_nat.simps digit_char_def Let_def

lemma Compress_ok_string:
  "Compress lit_json (stored_flate 0 True) (Some (GoString (bytes_of ''ok'')))
     = (Some [31, 139, 8, 0, 0, 0, 0, 0, 0, 255, 1, 5, 0, 250, 255, 34, 111, 107, 34,
              10, 211, 231, 131, 29, 5, 0, 0, 0], None)"
  by (simp add: Compress_def json_Encode_def gzip_Close_def gzip_member_def gzip_header_def
        lit_json_def lit_Marshal_def stored_flate_def stored_deflate.simps le_bytes16_def
        le_bytes32_def crc32_def crc_byte_def crc_bit_def bytes_of_def plain_def json_quote_def)


lemma malformed_at_limit:
  "gzip_NewReader (stored_flate 3 True) (gzip_member (stored_flate 3 True) (bytes_of ''x''))
     = Inr \<lparr>pending = bytes_of ''x'', final = EOF\<rparr>
   \<and> json_Decode lit_json (stored_flate 3 True)
        \<lparr>R = \<lparr>pending = bytes_of ''x'', final = EOF\<rparr>, N = 1\<rparr> (GoString [])
     = (Some SyntaxError, \<lparr>R = \<lparr>pending = [], final = EOF\<rparr>, N = 0\<rparr>, GoString [])"
  by (simp add: run_eval)

lemma corrupt_at_limit:
  "gzip_NewReader (stored_flate 3 True)
     (gzip_header @ stored_deflate ([0x22, 0x6f, 0x6b, 0x22] @ bytes_of ''     '')
        @ le_bytes32 0 @ le_bytes32 9)
     = Inr \<lparr>pending = [0x22, 0x6f, 0x6b, 0x22] @ bytes_of ''     '', final = ErrChecksum\<rparr>
   \<and> json_Decode lit_json (stored_flate 3 True)
        \<lparr>R = \<lparr>pending = [0x22, 0x6f, 0x6b, 0x22] @ bytes_of ''     '', final = ErrChecksum\<rparr>,
         N = 9\<rparr> (GoString [])
     = (None, \<lparr>R = \<lparr>pending = bytes_of '' '', final = ErrChecksum\<rparr>, N = 1\<rparr>,
        GoString [0x6f, 0x6b])
   \<and> discard_ReadFrom (stored_flate 3 True)
        \<lparr>R = \<lparr>pending = bytes_of '' '', final = ErrChecksum\<rparr>, N = 1\<rparr>
     = (Some ErrChecksum, \<lparr>R = \<lparr>pending = [], final = ErrChecksum\<rparr>, N = 0\<rparr>)"
  by (simp add: run_eval)

section \<open>Round trip\<close>



section \<open>Padding after the value\<close>

text \<open>
  C2. A stream that starts with a complete value and goes on beyond the limit should fail
  with the size-limit error. It does not: the string \<open>"ok"\<close> followed by twenty spaces,
  read with limit 8, is accepted. Once the budget is used up the bounded reader reports
  \<open>EOF\<close>, which ends the drain without error (\<open>discard_exhausted\<close>), so the test of
  the remaining budget after the drain is not reached.
\<close>

theorem padding_beyond_limit_succeeds:
  "Decompress lit_json (stored_flate 3 False)
     (gzip_member (stored_flate 3 False)
        ([0x22, 0x6f, 0x6b, 0x22] @ bytes_of ''                    ''))
     (Some (GoString [])) 8
   = (None, Some (GoString [0x6f, 0x6b]))"
  by (simp add: run_eval)

section \<open>Truncation of the footer\<close>

text \<open>
  C3. A blob of \<^verbatim>\<open>Compress\<close> without its last four bytes should be refused as
  "failed to verify complete gzip stream" under every limit that suffices for the blob
  itself. It is not: the compression of the string \<open>ok\<close>, five bytes of text with the
  newline, cut by four bytes and read with limit 5, is accepted, whether the reader
  reports the broken footer with the last bytes or after them. The decoder has used up the
  budget, the bounded reader answers the drain with \<open>EOF\<close> (\<open>discard_exhausted\<close>),
  and the footer is never looked at. Above that limit the truncation is reported
  (\<open>truncation_reported_above_size\<close>).
\<close>

theorem truncation_accepted_at_exact_limit:
  "Compress lit_json (stored_flate 0 True) (Some (GoString (bytes_of ''ok'')))
     = (Some [31, 139, 8, 0, 0, 0, 0, 0, 0, 255, 1, 5, 0, 250, 255, 34, 111, 107, 34,
              10, 211, 231, 131, 29, 5, 0, 0, 0], None)
   \<and> Decompress lit_json (stored_flate 8191 True)
       [31, 139, 8, 0, 0, 0, 0, 0, 0, 255, 1, 5, 0, 250, 255, 34, 111, 107, 34, 10,
        211, 231, 131, 29]
       (Some (GoString [])) 5
     = (None, Some (GoString [0x6f, 0x6b]))
   \<and> Decompress lit_json (stored_flate 8191 False)
       [31, 139, 8, 0, 0, 0, 0, 0, 0, 255, 1, 5, 0, 250, 255, 34, 111, 107, 34, 10,
        211, 231, 131, 29]
       (Some (GoString [])) 5
     = (None, Some (GoString [0x6f, 0x6b]))"
  using Compress_ok_string by (simp add: run_eval)

section \<open>The hard size cap\<close>

text \<open>
  C4. Let \<open>v\<close> be the string of one hundred \<open>a\<close>, whose JSON text is the string in
  quotes (not complete after ten bytes). \<^verbatim>\<open>Decompress\<close> of its compression with limit
  10 returns the \<open>InvalidParams\<close> error "decompressed size exceeds limit: 10 bytes"; with a
  limit of at least 103, the hundred bytes and the overhead of two quotes and a newline,
  it succeeds.
\<close>

theorem hard_size_cap:
  assumes jf: "json_faithful J v (json_quote (replicate 100 0x61)) dst"
    and ff: "flate_faithful F (json_quote (replicate 100 0x61) @ [0x0a])"
    and ne: "\<not> scan_eof J (take 10 (json_quote (replicate 100 0x61)))"
  shows "\<exists>blob. Compress J F (Some v) = (Some blob, None)
           \<and> Decompress J F blob (Some dst) 10
               = (Some \<lparr>code = InvalidParams,
                         message = ''decompressed size exceeds limit: 10 bytes'',
                         cause = None\<rparr>, Some dst)
           \<and> (\<forall>L \<ge> 103. Decompress J F blob (Some dst) L = (None, Some v))"
proof -
  define js :: "byte list" where "js = json_quote (replicate 100 0x61)"
  let ?text = "js @ [0x0a]"
  let ?blob = "gzip_member F ?text"
  note jf = jf [folded js_def] and ff = ff [folded js_def] and ne = ne [folded js_def]
  have len: "length js = 102" by (simp add: js_def json_quote_def)
  have c: "Compress J F (Some v) = (Some ?blob, None)"
    using jf by (simp add: Compress_faithful json_faithful_def)
  have big: "Decompress J F ?blob (Some dst) L = (None, Some v)" if "103 \<le> L" for L
  proof -
    have "int (length js) + 1 \<le> L" using that len by simp
    from Decompress_faithful [OF jf ff this] show ?thesis .
  qed
  from json_faithful_scan [OF jf] obtain d where d: "length js \<le> d"
    and sc: "\<And>n. n \<le> length js + 1 \<Longrightarrow>
       scan_buf J (take n ?text) = (if n < d then ScanMore else ScanEnd (length js))"
    by auto
  let ?l = "\<lparr>R = \<lparr>pending = ?text, final = EOF\<rparr>, N = 10\<rparr>"
  have "\<exists>e l' b. readValue J F ?l (take 0 ?text) 0 None = (Inl e, l', b) \<and> N l' = 0"
  proof (rule readValue_limit_hit [where m = 10 and k = 0])
    show "scan_buf J (take n ?text) = ScanMore" if "n \<le> nat 10" for n
      using sc [of n] that d len by simp
    show "\<not> scan_eof J (take (nat 10) ?text)" using ne len by simp
  qed (use len in auto)
  then obtain e l' b where rv: "readValue J F ?l [] 0 None = (Inl e, l', b)" and N: "N l' = 0"
    by auto
  have "Decompress J F ?blob (Some dst) 10
               = (Some \<lparr>code = InvalidParams,
                         message = ''decompressed size exceeds limit: 10 bytes'',
                         cause = None\<rparr>, Some dst)"
    by (simp add: Decompress_def gzip_member_nonempty gzip_NewReader_member [OF ff]
          json_Decode_def rv N size_limit_error_def errors_Errorf_def show_int_def
          show_nat.simps digit_char_def)
  with c big show ?thesis by blast
qed

theorem hard_size_cap_witness:
  "json_faithful lit_json (GoString (replicate 100 0x61))
         (json_quote (replicate 100 0x61)) (GoString [])
   \<and> flate_faithful (stored_flate 2 False) (json_quote (replicate 100 0x61) @ [0x0a])
   \<and> \<not> scan_eof lit_json (take 10 (json_quote (replicate 100 0x61)))
   \<and> (\<exists>blob. Compress lit_json (stored_flate 2 False) (Some (GoString (replicate 100 0x61)))
                 = (Some blob, None)
           \<and> Decompress lit_json (stored_flate 2 False) blob (Some (GoString [])) 10
               = (Some \<lparr>code = InvalidParams,
                         message = ''decompressed size exceeds limit: 10 bytes'',
                         cause = None\<rparr>, Some (GoString []))
           \<and> (\<forall>L \<ge> 103. Decompress lit_json (stored_flate 2 False) blob (Some (GoString [])) L
                          = (None, Some (GoString (replicate 100 0x61)))))"
proof -
  have p: "list_all plain (replicate 100 (0x61 :: byte))"
    by (simp add: list_all_iff plain_def)
  have j: "json_faithful lit_json (GoString (replicate 100 0x61))
         (json_quote (replicate 100 0x61)) (GoString [])"
    using p by (rule lit_faithful_string)
  have f: "flate_faithful (stored_flate 2 False) (json_quote (replicate 100 0x61) @ [0x0a])"
    by (rule stored_faithful) (simp add: json_quote_def)
  have t: "take 10 (json_quote (replicate 100 (0x61 :: byte))) = 0x22 # replicate 9 0x61 @ []"
    by (simp add: json_quote_def take_Cons' min_def)
  have "lit_run InString (Suc 0) (replicate 9 (0x61 :: byte) @ [])
          = lit_run InString (Suc 0 + length (replicate 9 (0x61 :: byte))) []"
    by (rule lit_run_string) (simp add: list_all_iff plain_def)
  then have e: "\<not> scan_eof lit_json (take 10 (json_quote (replicate 100 0x61)))"
    unfolding t by (simp add: lit_json_def lit_scan_eof_def isSpace_def)
  from hard_size_cap [OF j f e] j f e show ?thesis by blast
qed

section \<open>The default limit\<close>

text \<open>
  C5. \<^verbatim>\<open>Decompress\<close> with limit 0 behaves as with limit \<open>4 * 1024 * 1024\<close>, and so
  does every call with a limit that is zero or negative: such a limit is replaced by the
  default of 4 MiB and never lifts the bound.
\<close>

theorem default_limit:
  "Decompress J F blob out 0 = Decompress J F blob out (4 * 1024 * 1024)
   \<and> (m \<le> 0 \<longrightarrow> Decompress J F blob out m = Decompress J F blob out (4 * 1024 * 1024))"
  by (cases out) (simp_all add: Decompress_def defaultMaxDecompressedSize_def Let_def)

theorem default_limit_witness:
  "(- 5 :: int) \<le> 0
   \<and> Decompress lit_json (stored_flate 0 True) [0x1f, 0x8b] (Some GoChan) (- 5)
       = Decompress lit_json (stored_flate 0 True) [0x1f, 0x8b] (Some GoChan) (4 * 1024 * 1024)"
  using default_limit [of lit_json "stored_flate 0 True" "[0x1f, 0x8b]" "Some GoChan" "- 5"]
  by simp

section \<open>Rejection of nil and empty arguments\<close>

text \<open>
  C6. \<^verbatim>\<open>Compress(nil)\<close> returns the \<open>InvalidParams\<close> error "data cannot be nil";
  \<^verbatim>\<open>Decompress\<close> returns an \<open>InvalidParams\<close> error for an empty blob
  ("compressedData cannot be empty") and, for a blob that is not empty, for a nil
  destination ("output pointer cannot be nil"). The results are the same for every
  library: no encoder, compressor or decompressor has been consulted.
\<close>

theorem null_rejection:
  "Compress J F None
     = (None, Some \<lparr>code = InvalidParams, message = ''data cannot be nil'', cause = None\<rparr>)
   \<and> Decompress J F [] out m
     = (Some \<lparr>code = InvalidParams, message = ''compressedData cannot be empty'',
               cause = None\<rparr>, out)
   \<and> (blob \<noteq> [] \<longrightarrow>
        Decompress J F blob None m
          = (Some \<lparr>code = InvalidParams, message = ''output pointer cannot be nil'',
                   cause = None\<rparr>, None))"
  by (simp add: Compress_def Decompress_def errors_New_def)

theorem null_rejection_witness:
  "Compress lit_json (stored_flate 0 True) None
     = (None, Some \<lparr>code = InvalidParams, message = ''data cannot be nil'', cause = None\<rparr>)
   \<and> Decompress lit_json (stored_flate 0 True) [] (Some GoChan) 7
     = (Some \<lparr>code = InvalidParams, message = ''compressedData cannot be empty'',
               cause = None\<rparr>, Some GoChan)
   \<and> [0x1f :: byte, 0x8b] \<noteq> []
   \<and> Decompress lit_json (stored_flate 0 True) [0x1f, 0x8b] None 7
          = (Some \<lparr>code = InvalidParams, message = ''output pointer cannot be nil'',
                   cause = None\<rparr>, None)"
  using null_rejection [of lit_json "stored_flate 0 True" "Some GoChan" 7 "[0x1f, 0x8b]"]
  by simp

section \<open>Errors and results\<close>




section \<open>The magic header\<close>

text \<open>
  C8. Whenever \<^verbatim>\<open>Compress\<close> returns bytes for a value that is not the nil
  interface, they start with the two magic bytes of gzip, \<open>0x1f 0x8b\<close>.
\<close>

theorem magic_header:
  "Compress J F (Some v) = (Some bs, e) \<Longrightarrow> take 2 bs = [0x1f, 0x8b]"
  by (auto simp: Compress_def gzip_Close_def gzip_member_def gzip_header_def
           split: sum.splits)

theorem magic_header_witness:
  "Compress lit_json (stored_flate 0 True) (Some (GoString (bytes_of ''ok'')))
     = (Some [31, 139, 8, 0, 0, 0, 0, 0, 0, 255, 1, 5, 0, 250, 255, 34, 111, 107, 34,
              10, 211, 231, 131, 29, 5, 0, 0, 0], None)
   \<and> take 2 [31, 139, 8, 0, 0, 0, 0, 0, 0, 255, 1, 5, 0, 250, 255, 34, 111, 107, 34,
              10, 211, 231, 131, 29, 5, 0, 0, 0 :: byte] = [0x1f, 0x8b]"
  using magic_header [OF Compress_ok_string] Compress_ok_string by simp

section \<open>A nil pointer in the interface\<close>

text \<open>
  C9. The nil check of \<^verbatim>\<open>Compress\<close> rejects the nil interface only. An interface
  that holds a nil pointer, which the JSON encoder writes as \<open>null\<close>, passes it:
  \<^verbatim>\<open>Compress\<close> succeeds with the compression of \<open>null\<close> and a newline, and does
  not return what it returns for the nil interface.
\<close>

theorem typed_nil_pointer:
  "Marshal J v = Inr (bytes_of ''null'') \<Longrightarrow>
     Compress J F (Some v) = (Some (gzip_member F (bytes_of ''null'' @ [0x0a])), None)
     \<and> Compress J F (Some v) \<noteq> Compress J F None"
  by (simp add: Compress_def json_Encode_def gzip_Close_def)

theorem typed_nil_pointer_witness:
  "Marshal lit_json GoNilPtr = Inr (bytes_of ''null'')
   \<and> Compress lit_json (stored_flate 0 True) (Some GoNilPtr)
       = (Some (gzip_member (stored_flate 0 True) (bytes_of ''null'' @ [0x0a])), None)
   \<and> Compress lit_json (stored_flate 0 True) (Some GoNilPtr)
       \<noteq> Compress lit_json (stored_flate 0 True) None"
proof -
  have h: "Marshal lit_json GoNilPtr = Inr (bytes_of ''null'')"
    by (simp add: lit_json_def lit_Marshal_def)
  from typed_nil_pointer [OF h, of "stored_flate 0 True"] h show ?thesis by blast
qed

section \<open>Classification of failures\<close>

text \<open>
  C10. After a failed decode, and after a failed drain, the error depends only on the
  budget the bounded reader has left: with none left it is the \<open>InvalidParams\<close>
  size-limit error, whatever the cause (malformed JSON, a checksum mismatch); with some
  left it is the \<open>InternalServerError\<close> of the phase, wrapping the cause.
\<close>

theorem classification:
  assumes "blob \<noteq> []" and "gzip_NewReader F blob = Inr gr"
    and "maxU = (if m \<le> 0 then defaultMaxDecompressedSize else m)"
  shows "(json_Decode J F \<lparr>R = gr, N = maxU\<rparr> dst = (Some e, lr, dst') \<longrightarrow>
            Decompress J F blob (Some dst) m
              = (if N lr \<le> 0
                 then (Some (errors_Errorf InvalidParams
                         (''decompressed size exceeds limit: '' @ show_int maxU @ '' bytes'')),
                       Some dst')
                 else (Some (errors_Wrapf e InternalServerError ''failed to decode JSON''),
                       Some dst')))
       \<and> (json_Decode J F \<lparr>R = gr, N = maxU\<rparr> dst = (None, lr, dst')
            \<and> discard_ReadFrom F lr = (Some e, lr') \<longrightarrow>
            Decompress J F blob (Some dst) m
              = (if N lr' \<le> 0
                 then (Some (errors_Errorf InvalidParams
                         (''decompressed size exceeds limit: '' @ show_int maxU @ '' bytes'')),
                       Some dst')
                 else (Some (errors_Wrapf e InternalServerError
                         ''failed to verify complete gzip stream''), Some dst')))"
  using assms by (simp add: Decompress_def size_limit_error_def)

theorem classification_witness:
  "gzip_member (stored_flate 3 True) (bytes_of ''x'') \<noteq> []
   \<and> gzip_NewReader (stored_flate 3 True) (gzip_member (stored_flate 3 True) (bytes_of ''x''))
     = Inr \<lparr>pending = bytes_of ''x'', final = EOF\<rparr>
   \<and> json_Decode lit_json (stored_flate 3 True)
        \<lparr>R = \<lparr>pending = bytes_of ''x'', final = EOF\<rparr>, N = 1\<rparr> (GoString [])
     = (Some SyntaxError, \<lparr>R = \<lparr>pending = [], final = EOF\<rparr>, N = 0\<rparr>, GoString [])
   \<and> Decompress lit_json (stored_flate 3 True)
        (gzip_member (stored_flate 3 True) (bytes_of ''x'')) (Some (GoString [])) 1
     = (Some \<lparr>code = InvalidParams, message = ''decompressed size exceeds limit: 1 bytes'',
               cause = None\<rparr>, Some (GoString []))
   \<and> gzip_header @ stored_deflate ([0x22, 0x6f, 0x6b, 0x22] @ bytes_of ''     '')
        @ le_bytes32 0 @ le_bytes32 9 \<noteq> []
   \<and> discard_ReadFrom (stored_flate 3 True)
        \<lparr>R = \<lparr>pending = bytes_of '' '', final = ErrChecksum\<rparr>, N = 1\<rparr>
     = (Some ErrChecksum, \<lparr>R = \<lparr>pending = [], final = ErrChecksum\<rparr>, N = 0\<rparr>)
   \<and> Decompress lit_json (stored_flate 3 True)
        (gzip_header @ stored_deflate ([0x22, 0x6f, 0x6b, 0x22] @ bytes_of ''     '')
           @ le_bytes32 0 @ le_bytes32 9) (Some (GoString [])) 9
     = (Some \<lparr>code = InvalidParams, message = ''decompressed size exceeds limit: 9 bytes'',
               cause = None\<rparr>, Some (GoString [0x6f, 0x6b]))"
proof -
  let ?F = "stored_flate 3 True"
  let ?b1 = "gzip_member ?F (bytes_of ''x'')"
  let ?b2 = "gzip_header @ stored_deflate ([0x22, 0x6f, 0x6b, 0x22] @ bytes_of ''     '')
               @ le_bytes32 0 @ le_bytes32 9"
  have n1: "?b1 \<noteq> []" by (rule gzip_member_nonempty)
  have n2: "?b2 \<noteq> []" by (simp add: gzip_header_def)
  have m1: "(1 :: int) = (if (1 :: int) \<le> 0 then defaultMaxDecompressedSize else 1)" by simp
  have m2: "(9 :: int) = (if (9 :: int) \<le> 0 then defaultMaxDecompressedSize else 9)" by simp
  note r1 = malformed_at_limit
  note r2 = corrupt_at_limit
  have d1: "Decompress lit_json ?F ?b1 (Some (GoString [])) 1
     = (Some \<lparr>code = InvalidParams, message = ''decompressed size exceeds limit: 1 bytes'',
               cause = None\<rparr>, Some (GoString []))"
    using classification [OF n1 r1 [THEN conjunct1] m1, of lit_json "GoString []"
            SyntaxError "\<lparr>R = \<lparr>pending = [], final = EOF\<rparr>, N = 0\<rparr>" "GoString []"]
          r1 [THEN conjunct2]
    by (simp add: errors_Errorf_def show_int_def show_nat.simps digit_char_def)
  have d2: "Decompress lit_json ?F ?b2 (Some (GoString [])) 9
     = (Some \<lparr>code = InvalidParams, message = ''decompressed size exceeds limit: 9 bytes'',
               cause = None\<rparr>, Some (GoString [0x6f, 0x6b]))"
    using classification [OF n2 r2 [THEN conjunct1] m2, of lit_json "GoString []"
            ErrChecksum "\<lparr>R = \<lparr>pending = bytes_of '' '', final = ErrChecksum\<rparr>, N = 1\<rparr>"
            "GoString [0x6f, 0x6b]" "\<lparr>R = \<lparr>pending = [], final = ErrChecksum\<rparr>, N = 0\<rparr>"]
          r2 [THEN conjunct2]
    by (simp add: errors_Errorf_def show_int_def show_nat.simps digit_char_def)
  from n1 n2 r1 r2 d1 d2 show ?thesis by blast
qed

end
